theory Spec2Isabelle
  imports Main
begin

section \<open>The deployment supervisor of deploy_biomedicus.py\<close>

text \<open>
  The development embeds the part of \<^verbatim>\<open>deploy\<close> that starts the worker processes,
  checks that each one becomes reachable and shuts the group down (lines 116 to 154 of
  \<^verbatim>\<open>src/python/biomedicus/deployment/deploy_biomedicus.py\<close>). The data check and
  the construction of the list \<^verbatim>\<open>calls\<close> (lines 84 to 115) come before it; the
  model starts from the finished list of \<^verbatim>\<open>(call, port)\<close> pairs.

  Everything the function does to the outside world is recorded, in order, in a trace
  of events. Everything the outside world decides (whether a command can be started,
  how a probe ends, when SIGINT is delivered, whether a relay thread ends in time) is
  read from an environment, so that \<^verbatim>\<open>deploy\<close> is a function of the environment
  and the launch plan.
\<close>

subsection \<open>Data\<close>

type_synonym call = "string list"

type_synonym service = "call \<times> string"

text \<open>
  The exceptions that leave \<^verbatim>\<open>deploy\<close>: \<^verbatim>\<open>Popen\<close> raises an \<^verbatim>\<open>OSError\<close>
  (\<^verbatim>\<open>FileNotFoundError\<close> is one) when the command cannot be started;
  \<^verbatim>\<open>future.result\<close> raises \<^verbatim>\<open>grpc.FutureCancelledError\<close> when the future was
  cancelled. \<^verbatim>\<open>grpc.FutureTimeoutError\<close> is caught at line 148 and never leaves.
\<close>

datatype exc = OSError | FutureCancelledError

text \<open>
  How a call of \<^verbatim>\<open>deploy\<close> ends: it returns, an exception leaves it, or it stays
  in \<^verbatim>\<open>e.wait()\<close> for ever.
\<close>

datatype completion = Returned | Raised exc | Blocked

text \<open>
  What \<^verbatim>\<open>future.result(timeout=20)\<close> does when nobody cancels the future: it
  returns (the channel is ready) or raises \<^verbatim>\<open>grpc.FutureTimeoutError\<close>.
\<close>

datatype outcome = Ready | Timeout

text \<open>
  The observable actions. Processes and listener threads are named by their position
  in \<^verbatim>\<open>processes\<close> and \<^verbatim>\<open>process_listeners\<close>, probes by the position of their
  service in \<^verbatim>\<open>calls\<close>.
  \<^item> \<open>Popen c\<close>: \<^verbatim>\<open>Popen(call, stdout=PIPE, stderr=STDOUT)\<close> returned a process;
  \<^item> \<open>PopenRaises c\<close>: the same call raised;
  \<^item> \<open>ThreadStart i\<close>: \<^verbatim>\<open>listener.start()\<close> for the relay thread of process \<open>i\<close>;
  \<^item> \<open>SignalInstall\<close>: \<^verbatim>\<open>signal.signal(signal.SIGINT, handler)\<close>;
  \<^item> \<open>Print t\<close>: \<^verbatim>\<open>print(t)\<close>; \<open>PrintFormat t c\<close>: \<^verbatim>\<open>print(t.format(c))\<close>;
  \<^item> \<open>SendSignal i\<close>: \<^verbatim>\<open>p.send_signal(signal.SIGINT)\<close> for process \<open>i\<close>;
  \<^item> \<open>FutureCancel k\<close>: \<^verbatim>\<open>future.cancel()\<close> on the future of service \<open>k\<close>;
  \<^item> \<open>Join i t b\<close>: \<^verbatim>\<open>listener.join(timeout=t)\<close> for thread \<open>i\<close>; \<open>b\<close> tells whether
    the thread had ended when the call came back (the call returns nothing);
  \<^item> \<open>EventSet\<close>: \<^verbatim>\<open>e.set()\<close>; \<open>EventWait\<close>: \<^verbatim>\<open>e.wait()\<close> is entered;
  \<^item> \<open>Probe k a t\<close>: lines 144 to 147 for service \<open>k\<close>: a channel to address \<open>a\<close>, its
    ready-future, and \<^verbatim>\<open>future.result(timeout=t)\<close>.
\<close>

datatype event =
    Popen call
  | PopenRaises call
  | ThreadStart nat
  | SignalInstall
  | Print string
  | PrintFormat string call
  | SendSignal nat
  | FutureCancel nat
  | Join nat nat bool
  | EventSet
  | EventWait
  | Probe nat string nat

text \<open>
  The environment of one run.
  \<^item> \<open>spawn_ok i\<close>: the \<open>i\<close>-th \<^verbatim>\<open>Popen\<close> succeeds;
  \<^item> \<open>sigint_before k\<close>: how many times SIGINT is delivered between the end of the
    previous loop iteration and the test \<^verbatim>\<open>if not shutting_down[0]\<close> for service \<open>k\<close>;
  \<^item> \<open>sigint_during k\<close>: how many times SIGINT is delivered while the main flow waits in
    \<^verbatim>\<open>future.result\<close> for service \<open>k\<close>, before the future matures or times out;
  \<^item> \<open>probe_outcome k\<close>: how that wait ends when nobody cancels it;
  \<^item> \<open>sigint_at_wait\<close>: SIGINT is delivered while the main flow blocks in \<^verbatim>\<open>e.wait()\<close>;
  \<^item> \<open>relay_finishes i\<close>: the relay thread \<open>i\<close> ends within the 5 seconds of its join.
  Python runs a signal handler in the main thread, so a delivery of SIGINT is a call of
  \<^verbatim>\<open>handler\<close> at that point of the main flow. SIGINT before line 140 (the default
  handler) and SIGINT inside a running \<^verbatim>\<open>handler\<close> are outside the model.
\<close>

record env =
  spawn_ok :: "nat \<Rightarrow> bool"
  sigint_before :: "nat \<Rightarrow> nat"
  sigint_during :: "nat \<Rightarrow> nat"
  probe_outcome :: "nat \<Rightarrow> outcome"
  sigint_at_wait :: bool
  relay_finishes :: "nat \<Rightarrow> bool"

text \<open>
  The variables of \<^verbatim>\<open>deploy\<close> that \<^verbatim>\<open>handler\<close> shares with it. \<open>e\<close> is the
  flag of the \<^verbatim>\<open>Event\<close>, \<open>shutting_down\<close> is \<^verbatim>\<open>shutting_down[0]\<close>, \<open>future\<close> is
  \<^verbatim>\<open>None\<close> or the ready-future of a service together with its cancelled mark.
\<close>

record state =
  processes :: "nat list"
  process_listeners :: "nat list"
  e :: bool
  shutting_down :: bool
  future :: "(nat \<times> bool) option"
  trace :: "event list"

definition init :: state where
  "init = \<lparr>processes = [], process_listeners = [], e = False, shutting_down = False,
           future = None, trace = []\<rparr>"

definition emit :: "event list \<Rightarrow> state \<Rightarrow> state" where
  "emit evs s = s\<lparr>trace := trace s @ evs\<rparr>"

subsection \<open>The shutdown handler (lines 129 to 138)\<close>

text \<open>
  \<^verbatim>\<open>future.cancel()\<close> marks the future as cancelled. The mark is read only by the
  \<^verbatim>\<open>future.result\<close> call that is waiting on the same future (see \<open>probe_loop\<close>).
\<close>

definition handler :: "env \<Rightarrow> state \<Rightarrow> state" where
  "handler env s =
    (let s1 = s\<lparr>shutting_down := True\<rparr>;
         s2 = emit [Print ''Shutting down all processors''] s1;
         s3 = fold (\<lambda>p. emit [SendSignal p]) (processes s2) s2;
         s4 = (case future s3 of
                 None \<Rightarrow> s3
               | Some (k, c) \<Rightarrow> emit [FutureCancel k] (s3\<lparr>future := Some (k, True)\<rparr>));
         s5 = fold (\<lambda>l. emit [Join l 5 (relay_finishes env l)]) (process_listeners s4) s4
     in emit [EventSet] (s5\<lparr>e := True\<rparr>))"

text \<open>\<open>n\<close> deliveries of SIGINT at one point of the main flow.\<close>

definition sigint :: "env \<Rightarrow> nat \<Rightarrow> state \<Rightarrow> state" where
  "sigint env n s = (handler env ^^ n) s"

subsection \<open>Starting the processes (lines 116 to 123)\<close>

text \<open>
  A new process takes the next position in \<^verbatim>\<open>processes\<close>. When \<^verbatim>\<open>Popen\<close>
  raises, nothing catches the exception: the loop and \<^verbatim>\<open>deploy\<close> end there.
\<close>

fun spawn :: "env \<Rightarrow> service list \<Rightarrow> state \<Rightarrow> exc option \<times> state" where
  "spawn env [] s = (None, s)"
| "spawn env ((call, port) # cs) s =
    (let p = length (processes s) in
     if spawn_ok env p
     then spawn env cs
            ((emit [Popen call, ThreadStart p] s)
               \<lparr>processes := processes s @ [p],
                process_listeners := process_listeners s @ [p]\<rparr>)
     else (Some OSError, emit [PopenRaises call] s))"

subsection \<open>The readiness loop (lines 142 to 150)\<close>

fun cancelled :: "(nat \<times> bool) option \<Rightarrow> bool" where
  "cancelled None = False"
| "cancelled (Some (k, c)) = c"

text \<open>
  \<open>k\<close> counts the iterations. The future of service \<open>k\<close> is new and not cancelled when
  the wait starts; a SIGINT during the wait runs \<^verbatim>\<open>handler\<close>, which cancels it, and
  \<^verbatim>\<open>future.result\<close> then raises \<^verbatim>\<open>grpc.FutureCancelledError\<close>: this is the
  documented behaviour of \<^verbatim>\<open>grpc.Future.result\<close> (a library outside the repository)
  for a cancelled future, and what the spec calls the result \<^verbatim>\<open>Cancelled\<close> of a probe.
  Line 148 catches \<^verbatim>\<open>grpc.FutureTimeoutError\<close> only, so that exception leaves the
  \<^verbatim>\<open>with\<close> block, the loop and \<^verbatim>\<open>deploy\<close>.
\<close>

fun probe_loop :: "env \<Rightarrow> service list \<Rightarrow> nat \<Rightarrow> state \<Rightarrow> exc option \<times> state" where
  "probe_loop env [] k s = (None, s)"
| "probe_loop env ((call, port) # cs) k s =
    (let s0 = sigint env (sigint_before env k) s in
     if \<not> shutting_down s0
     then
       (let s1 = emit [Probe k (''127.0.0.1:'' @ port) 20] (s0\<lparr>future := Some (k, False)\<rparr>);
            s2 = sigint env (sigint_during env k) s1
        in if cancelled (future s2) then (Some FutureCancelledError, s2)
           else (case probe_outcome env k of
                   Ready \<Rightarrow> probe_loop env cs (Suc k) s2
                 | Timeout \<Rightarrow>
                     probe_loop env cs (Suc k)
                       (handler env (emit [PrintFormat ''Failed to launch: {}'' call] s2))))
     else probe_loop env cs (Suc k) s0)"

subsection \<open>The end of deploy (lines 152 to 154) and the whole function\<close>

text \<open>
  \<^verbatim>\<open>e.wait()\<close> returns at once when the event is set. Otherwise it returns after a
  SIGINT has run \<^verbatim>\<open>handler\<close>, which sets the event, and never when no SIGINT comes.
\<close>

definition wait_and_finish :: "env \<Rightarrow> state \<Rightarrow> completion \<times> state" where
  "wait_and_finish env s =
    (let s1 = emit [EventWait] s in
     if e s1 then (Returned, emit [Print ''Done shutting down all processors''] s1)
     else if sigint_at_wait env
     then (Returned, emit [Print ''Done shutting down all processors''] (handler env s1))
     else (Blocked, s1))"

definition deploy :: "env \<Rightarrow> service list \<Rightarrow> completion \<times> state" where
  "deploy env calls =
    (case spawn env calls init of
       (Some x, s) \<Rightarrow> (Raised x, s)
     | (None, s) \<Rightarrow>
         (case probe_loop env calls 0 (emit [SignalInstall] s) of
            (Some x, s') \<Rightarrow> (Raised x, s')
          | (None, s') \<Rightarrow>
              wait_and_finish env (emit [Print ''Done starting all processors''] s')))"

text \<open>
  The status of the interpreter when the call of \<^verbatim>\<open>deploy\<close> is the last thing the
  program does: 0 when it returns, 1 when an exception leaves it, none while it blocks.
  \<^verbatim>\<open>deploy\<close> itself never calls \<^verbatim>\<open>sys.exit\<close>.
\<close>

fun exit_status :: "completion \<Rightarrow> int option" where
  "exit_status Returned = Some 0"
| "exit_status (Raised x) = Some 1"
| "exit_status Blocked = None"

subsection \<open>Trace vocabulary\<close>

text \<open>The events that \<^verbatim>\<open>handler\<close> adds to the trace, in order.\<close>

definition cascade :: "env \<Rightarrow> state \<Rightarrow> event list" where
  "cascade env s =
     Print ''Shutting down all processors'' # map SendSignal (processes s)
     @ (case future s of None \<Rightarrow> [] | Some (k, c) \<Rightarrow> [FutureCancel k])
     @ map (\<lambda>l. Join l 5 (relay_finishes env l)) (process_listeners s)
     @ [EventSet]"

fun is_Probe :: "event \<Rightarrow> bool" where
  "is_Probe (Probe k a t) = True"
| "is_Probe ev = False"

fun is_SendSignal :: "event \<Rightarrow> bool" where
  "is_SendSignal (SendSignal p) = True"
| "is_SendSignal ev = False"

fun is_output :: "event \<Rightarrow> bool" where
  "is_output (Print t) = True"
| "is_output (PrintFormat t c) = True"
| "is_output ev = False"

text \<open>
  The events of the start loop for the services \<open>cs\<close>, the first process taking
  position \<open>m\<close>; the events of undisturbed probes of the services \<open>cs\<close>, the first one
  being service \<open>k\<close>.
\<close>

definition spawned :: "nat \<Rightarrow> service list \<Rightarrow> event list" where
  "spawned m cs =
     concat (map (\<lambda>(i, call, port). [Popen call, ThreadStart i]) (enumerate m cs))"

definition probed :: "nat \<Rightarrow> service list \<Rightarrow> event list" where
  "probed k cs =
     map (\<lambda>(j, call, port). Probe j (''127.0.0.1:'' @ port) 20) (enumerate k cs)"

text \<open>
  \<open>precedes a b evs\<close>: the event \<open>b\<close> occurs in \<open>evs\<close>, and \<open>a\<close> occurs before its first
  occurrence.
\<close>

definition precedes :: "event \<Rightarrow> event \<Rightarrow> event list \<Rightarrow> bool" where
  "precedes a b evs = (b \<in> set evs \<and> a \<in> set (takeWhile (\<lambda>x. x \<noteq> b) evs))"

text \<open>
  \<open>no_trigger env k j\<close>: nothing triggers shutdown between the start of iteration \<open>k\<close>
  of the readiness loop and the probe of service \<open>j\<close>: no SIGINT arrives before the
  iterations \<open>k\<close> to \<open>j\<close>, and the probes of the services \<open>k\<close> to \<open>j - 1\<close> are not
  interrupted and end ready.
\<close>

definition no_trigger :: "env \<Rightarrow> nat \<Rightarrow> nat \<Rightarrow> bool" where
  "no_trigger env k j =
     (list_all (\<lambda>i. sigint_before env i = 0) [k..<Suc j]
      \<and> list_all (\<lambda>i. sigint_during env i = 0 \<and> probe_outcome env i = Ready) [k..<j])"

text \<open>
  The state in which the readiness loop reaches service \<open>k\<close> when all commands were
  started and nothing triggered shutdown before; the state after the probe of service
  \<open>k\<close> timed out there and the handler ran.
\<close>

definition reached :: "service list \<Rightarrow> nat \<Rightarrow> state" where
  "reached calls k =
     \<lparr>processes = [0..<length calls], process_listeners = [0..<length calls], e = False,
      shutting_down = False, future = (if k = 0 then None else Some (k - 1, False)),
      trace = spawned 0 calls @ SignalInstall # probed 0 (take k calls)\<rparr>"

definition timed_out :: "env \<Rightarrow> service list \<Rightarrow> nat \<Rightarrow> state" where
  "timed_out env calls k =
     handler env
       (emit [Probe k (''127.0.0.1:'' @ snd (calls ! k)) 20,
              PrintFormat ''Failed to launch: {}'' (fst (calls ! k))]
          ((reached calls k)\<lparr>future := Some (k, False)\<rparr>))"

text \<open>
  Proof vocabulary. \<open>extends s r\<close>: the state \<open>r\<close> has the processes and relay threads of
  \<open>s\<close>, and its trace is the trace of \<open>s\<close> followed by events that start nothing.
  \<open>alike s r\<close>: the states are equal but for the recorded outcome of the joins.
\<close>

fun is_launch :: "event \<Rightarrow> bool" where
  "is_launch (Popen c) = True"
| "is_launch (ThreadStart i) = True"
| "is_launch ev = False"

definition extends :: "state \<Rightarrow> state \<Rightarrow> bool" where
  "extends s r =
     (processes r = processes s \<and> process_listeners r = process_listeners s
      \<and> (\<exists>post. trace r = trace s @ post \<and> filter is_launch post = []))"

fun hide_join :: "event \<Rightarrow> event" where
  "hide_join (Join l t b) = Join l t True"
| "hide_join ev = ev"

definition alike :: "state \<Rightarrow> state \<Rightarrow> bool" where
  "alike s r =
     (processes s = processes r \<and> process_listeners s = process_listeners r
      \<and> e s = e r \<and> shutting_down s = shutting_down r \<and> future s = future r
      \<and> map hide_join (trace s) = map hide_join (trace r))"

subsection \<open>A launch plan and an environment for concrete runs\<close>

text \<open>
  Three services on their default ports (the command lines are shortened), and the
  environment in which every command starts, every service becomes ready, every relay
  ends in time, and the only SIGINT arrives while \<^verbatim>\<open>deploy\<close> blocks in
  \<^verbatim>\<open>e.wait()\<close>. Other runs are variations of it.
\<close>

definition plan :: "service list" where
  "plan = [([''mtap'', ''events''], ''10100''), ([''java'', ''tagger''], ''10103''),
           ([''python'', ''negex''], ''10106'')]"

definition calm :: env where
  "calm = \<lparr>spawn_ok = (\<lambda>i. True), sigint_before = (\<lambda>k. 0), sigint_during = (\<lambda>k. 0),
           probe_outcome = (\<lambda>k. Ready), sigint_at_wait = True,
           relay_finishes = (\<lambda>i. True)\<rparr>"

section \<open>Properties\<close>

subsection \<open>The handler and repeated deliveries of SIGINT\<close>

lemma fold_emit: "fold (\<lambda>x. emit [f x]) xs s = emit (map f xs) s"
  by (induction xs arbitrary: s) (simp_all add: emit_def)

lemma emit_sel [simp]:
  "processes (emit evs s) = processes s"
  "process_listeners (emit evs s) = process_listeners s"
  "shutting_down (emit evs s) = shutting_down s"
  "e (emit evs s) = e s"
  "future (emit evs s) = future s"
  "trace (emit evs s) = trace s @ evs"
  by (simp_all add: emit_def)

lemma handler_eq:
  "handler env s =
     s\<lparr>e := True, shutting_down := True,
        future := (case future s of None \<Rightarrow> None | Some (k, c) \<Rightarrow> Some (k, True)),
        trace := trace s @ cascade env s\<rparr>"
  by (simp add: handler_def cascade_def fold_emit emit_def Let_def split: option.splits)

lemma handler_sel [simp]:
  "processes (handler env s) = processes s"
  "process_listeners (handler env s) = process_listeners s"
  "shutting_down (handler env s) = True"
  "e (handler env s) = True"
  "trace (handler env s) = trace s @ cascade env s"
  by (simp_all add: handler_eq)

lemma future_handler [simp]:
  "future (handler env s) = (case future s of None \<Rightarrow> None | Some (k, c) \<Rightarrow> Some (k, True))"
  by (simp add: handler_eq)

lemma future_handler_None [simp]: "(future (handler env s) = None) = (future s = None)"
  by (cases "future s") (auto simp add: handler_eq)

lemma cascade_handler [simp]: "cascade env (handler env s) = cascade env s"
  by (simp add: cascade_def handler_eq split: option.splits)

lemma sigint_0 [simp]: "sigint env 0 s = s"
  by (simp add: sigint_def)

lemma sigint_Suc: "sigint env (Suc n) s = handler env (sigint env n s)"
  by (simp add: sigint_def)

lemma sigint_sel [simp]:
  "processes (sigint env n s) = processes s"
  "process_listeners (sigint env n s) = process_listeners s"
  "shutting_down (sigint env n s) = (shutting_down s \<or> 0 < n)"
  "e (sigint env n s) = (e s \<or> 0 < n)"
  "(future (sigint env n s) = None) = (future s = None)"
  by (induction n) (auto simp add: sigint_Suc)

lemma cascade_sigint [simp]: "cascade env (sigint env n s) = cascade env s"
  by (induction n) (simp_all add: sigint_Suc)

lemma sigint_add: "sigint env (m + n) s = sigint env n (sigint env m s)"
  by (simp add: sigint_def add.commute [of m n] funpow_add)

lemma concat_replicate_comm: "concat (replicate n xs) @ xs = xs @ concat (replicate n xs)"
  by (induction n) simp_all

lemma trace_sigint [simp]:
  "trace (sigint env n s) = trace s @ concat (replicate n (cascade env s))"
  by (induction n) (simp_all add: sigint_Suc concat_replicate_comm)

lemma future_sigint [simp]:
  "future (sigint env n s) =
     (if n = 0 then future s
      else (case future s of None \<Rightarrow> None | Some (k, c) \<Rightarrow> Some (k, True)))"
  by (induction n) (auto simp add: sigint_Suc future_handler split: option.splits)

lemma cascade_emit [simp]: "cascade env (emit evs s) = cascade env s"
  by (simp add: cascade_def)

lemma filter_Probe_cascade [simp]: "filter is_Probe (cascade env s) = []"
  by (simp add: cascade_def split: option.splits)

lemma filter_Probe_cascades [simp]:
  "filter is_Probe (concat (replicate n (cascade env s))) = []"
  by (simp add: filter_concat)

lemma filter_Probe_sigint [simp]:
  "filter is_Probe (trace (sigint env n s)) = filter is_Probe (trace s)"
  by (simp add: filter_concat)

lemma filter_launch_cascade [simp]: "filter is_launch (cascade env s) = []"
  by (simp add: cascade_def split: option.splits)

lemma filter_SendSignal_cascade [simp]:
  "filter is_SendSignal (cascade env s) = map SendSignal (processes s)"
  by (simp add: cascade_def filter_map comp_def split: option.splits)

subsection \<open>C7: the order of the steps of the handler\<close>



subsection \<open>C2: shutdown is triggered more than once\<close>



subsection \<open>The start loop\<close>

lemma spawned_Nil [simp]: "spawned m [] = []"
  by (simp add: spawned_def)

lemma spawned_Cons [simp]:
  "spawned m ((call, port) # cs) = Popen call # ThreadStart m # spawned (Suc m) cs"
  by (simp add: spawned_def)

lemma spawn_all:
  "\<forall>i<length cs. spawn_ok env (length (processes s) + i) \<Longrightarrow>
   spawn env cs s =
     (None, s\<lparr>processes := processes s @ [length (processes s)..<length (processes s) + length cs],
              process_listeners :=
                process_listeners s @ [length (processes s)..<length (processes s) + length cs],
              trace := trace s @ spawned (length (processes s)) cs\<rparr>)"
proof (induction cs arbitrary: s)
  case Nil
  then show ?case by simp
next
  case (Cons c cs)
  obtain call port where c: "c = (call, port)" by (cases c)
  let ?s = "(emit [Popen call, ThreadStart (length (processes s))] s)
               \<lparr>processes := processes s @ [length (processes s)],
                process_listeners := process_listeners s @ [length (processes s)]\<rparr>"
  from Cons.prems have ok: "spawn_ok env (length (processes s))" by force
  from Cons.prems have "\<forall>i<length cs. spawn_ok env (length (processes ?s) + i)"
    by (auto simp add: emit_def)
  from Cons.IH [OF this]
  have "spawn env cs ?s =
     (None, ?s\<lparr>processes := processes ?s @ [length (processes ?s)..<length (processes ?s) + length cs],
              process_listeners :=
                process_listeners ?s @ [length (processes ?s)..<length (processes ?s) + length cs],
              trace := trace ?s @ spawned (length (processes ?s)) cs\<rparr>)" .
  moreover have "[length (processes s)..<length (processes s) + length (c # cs)] =
      length (processes s) # [Suc (length (processes s))..<Suc (length (processes s)) + length cs]"
    by (simp add: upt_conv_Cons del: upt_Suc)
  ultimately show ?case using ok
    by (simp add: c Let_def emit_def del: upt_Suc)
qed

lemma spawn_append:
  "spawn env (xs @ ys) s =
     (case spawn env xs s of (None, s') \<Rightarrow> spawn env ys s' | (Some x, s') \<Rightarrow> (Some x, s'))"
  by (induction xs arbitrary: s) (auto simp add: Let_def)

lemma spawn_fails:
  assumes k: "k < length calls"
    and ok: "\<forall>i<k. spawn_ok env i"
    and bad: "\<not> spawn_ok env k"
  shows "spawn env calls init =
     (Some OSError, init\<lparr>processes := [0..<k], process_listeners := [0..<k],
        trace := spawned 0 (take k calls) @ [PopenRaises (fst (calls ! k))]\<rparr>)"
proof -
  have split: "calls = take k calls @ calls ! k # drop (Suc k) calls"
    using k by (simp add: id_take_nth_drop [symmetric])
  have len: "length (take k calls) = k" using k by simp
  have "\<forall>i<length (take k calls). spawn_ok env (length (processes init) + i)"
    using ok by (simp add: init_def)
  from spawn_all [OF this]
  have first: "spawn env (take k calls) init =
     (None, init\<lparr>processes := [0..<k], process_listeners := [0..<k],
        trace := spawned 0 (take k calls)\<rparr>)"
    using len by (simp add: init_def)
  obtain call port where c: "calls ! k = (call, port)" by (cases "calls ! k")
  have "spawn env calls init = spawn env (take k calls @ calls ! k # drop (Suc k) calls) init"
    using split by simp
  also have "\<dots> = (Some OSError, init\<lparr>processes := [0..<k], process_listeners := [0..<k],
        trace := spawned 0 (take k calls) @ [PopenRaises (fst (calls ! k))]\<rparr>)"
    using bad by (simp add: spawn_append first c Let_def emit_def)
  finally show ?thesis .
qed

lemma spawn_init:
  assumes "\<forall>i<length calls. spawn_ok env i"
  shows "spawn env calls init =
     (None, init\<lparr>processes := [0..<length calls], process_listeners := [0..<length calls],
        trace := spawned 0 calls\<rparr>)"
  using spawn_all [of calls env init] assms by (simp add: init_def)

lemma spawn_env:
  "spawn (env\<lparr>relay_finishes := f\<rparr>) cs s = spawn env cs s"
  by (induction cs arbitrary: s) (auto simp add: Let_def)

lemma filter_Probe_spawned [simp]: "filter is_Probe (spawned m cs) = []"
  by (induction cs arbitrary: m) auto

subsection \<open>C5: a command that cannot be started\<close>

text \<open>
  C5, as the spec states it: when a command of the plan fails to spawn, the launch
  phase aborts, no readiness check is attempted, and the children spawned before the
  failure still receive termination requests. Nothing in \<^verbatim>\<open>deploy\<close> catches the
  exception of \<^verbatim>\<open>Popen\<close>: in the run where the second of three commands cannot be
  started, the first process was started and is never sent a termination request.
\<close>

theorem spawn_failure_leaves_children_unsignalled:
  "Popen [''mtap'', ''events'']
     \<in> set (trace (snd (deploy (calm\<lparr>spawn_ok := (spawn_ok calm)(1 := False)\<rparr>) plan)))
   \<and> SendSignal 0
     \<notin> set (trace (snd (deploy (calm\<lparr>spawn_ok := (spawn_ok calm)(1 := False)\<rparr>) plan)))"
  by code_simp

text \<open>
  C5, amended: when command \<open>k\<close> is the first that cannot be started, \<^verbatim>\<open>deploy\<close>
  ends by the exception of \<^verbatim>\<open>Popen\<close>. The processes and relay threads of the \<open>k\<close>
  commands before it were started, no later command is started, the handler is not
  installed, no readiness probe is made, and no termination request is sent to the
  processes that were started: the trace is exactly the \<open>k\<close> starts followed by the
  failed one.
\<close>

theorem spawn_failure_aborts_deploy:
  assumes "k < length calls" and "\<forall>i<k. spawn_ok env i" and "\<not> spawn_ok env k"
  shows "deploy env calls =
     (Raised OSError, init\<lparr>processes := [0..<k], process_listeners := [0..<k],
        trace := concat (map (\<lambda>(i, call, port). [Popen call, ThreadStart i])
                   (enumerate 0 (take k calls))) @ [PopenRaises (fst (calls ! k))]\<rparr>)"
  using spawn_fails [OF assms] by (simp add: deploy_def spawned_def)

theorem spawn_failure_aborts_deploy_witness:
  "deploy (calm\<lparr>spawn_ok := (spawn_ok calm)(1 := False)\<rparr>) plan =
     (Raised OSError, \<lparr>processes = [0], process_listeners = [0], e = False,
        shutting_down = False, future = None,
        trace = [Popen [''mtap'', ''events''], ThreadStart 0,
                 PopenRaises [''java'', ''tagger'']]\<rparr>)"
proof -
  have 1: "1 < length plan" by (simp add: plan_def)
  have 2: "\<forall>i<1. spawn_ok (calm\<lparr>spawn_ok := (spawn_ok calm)(1 := False)\<rparr>) i"
    by (simp add: calm_def)
  have 3: "\<not> spawn_ok (calm\<lparr>spawn_ok := (spawn_ok calm)(1 := False)\<rparr>) 1" by simp
  show ?thesis
    using spawn_failure_aborts_deploy [OF 1 2 3]
    by (simp add: plan_def init_def enumerate_eq_zip)
qed

subsection \<open>The readiness loop\<close>

lemma probe_loop_shut:
  "shutting_down s \<Longrightarrow>
   probe_loop env cs k s =
     (None, sigint env (sum_list (map (sigint_before env) [k..<k + length cs])) s)"
proof (induction cs arbitrary: k s)
  case Nil
  then show ?case by simp
next
  case (Cons c cs)
  obtain call port where c: "c = (call, port)" by (cases c)
  have "[k..<k + length (c # cs)] = k # [Suc k..<Suc k + length cs]"
    by (simp add: upt_conv_Cons del: upt_Suc)
  moreover have "shutting_down (sigint env (sigint_before env k) s)"
    using Cons.prems by simp
  ultimately show ?case
    using Cons.IH [of "sigint env (sigint_before env k) s" "Suc k"]
    by (simp add: c Let_def sigint_add del: upt_Suc)
qed

lemma probed_simps [simp]:
  "probed k [] = []"
  "probed k ((call, port) # cs) = Probe k (''127.0.0.1:'' @ port) 20 # probed (Suc k) cs"
  by (simp_all add: probed_def)

lemma probe_loop_ready:
  assumes "\<not> shutting_down s"
    and "\<forall>j<length cs. sigint_before env (k + j) = 0 \<and> sigint_during env (k + j) = 0
           \<and> probe_outcome env (k + j) = Ready"
  shows "probe_loop env cs k s =
     (None, s\<lparr>future := (if cs = [] then future s else Some (k + length cs - 1, False)),
              trace := trace s @ probed k cs\<rparr>)"
  using assms
proof (induction cs arbitrary: k s)
  case Nil
  then show ?case by simp
next
  case (Cons c cs)
  obtain call port where c: "c = (call, port)" by (cases c)
  let ?s = "emit [Probe k (''127.0.0.1:'' @ port) 20] (s\<lparr>future := Some (k, False)\<rparr>)"
  from Cons.prems(2) have here: "sigint_before env k = 0" "sigint_during env k = 0"
    "probe_outcome env k = Ready" by force+
  have rest: "\<forall>j<length cs. sigint_before env (Suc k + j) = 0
           \<and> sigint_during env (Suc k + j) = 0 \<and> probe_outcome env (Suc k + j) = Ready"
  proof (intro allI impI)
    fix j assume "j < length cs"
    then have "Suc j < length (c # cs)" by simp
    from Cons.prems(2) [rule_format, OF this]
    show "sigint_before env (Suc k + j) = 0
           \<and> sigint_during env (Suc k + j) = 0 \<and> probe_outcome env (Suc k + j) = Ready"
      by simp
  qed
  have "\<not> shutting_down ?s" using Cons.prems(1) by (simp add: emit_def)
  from Cons.IH [OF this rest] here Cons.prems(1) show ?case
    by (simp add: c Let_def emit_def)
qed

lemma probe_loop_append:
  "probe_loop env (xs @ ys) k s =
     (case probe_loop env xs k s of
        (None, s') \<Rightarrow> probe_loop env ys (k + length xs) s'
      | (Some x, s') \<Rightarrow> (Some x, s'))"
proof (induction xs arbitrary: k s)
  case Nil
  then show ?case by simp
next
  case (Cons c xs)
  obtain call port where c: "c = (call, port)" by (cases c)
  have eq: "k + length (c # xs) = Suc k + length xs" by simp
  show ?case unfolding eq
    by (auto simp add: c Let_def Cons.IH split: outcome.splits)
qed

lemma probed_append: "probed k (xs @ ys) = probed k xs @ probed (k + length xs) ys"
  by (induction xs arbitrary: k) auto

lemma probed_take_Suc:
  "k < length calls \<Longrightarrow>
   probed 0 (take (Suc k) calls) =
     probed 0 (take k calls) @ [Probe k (''127.0.0.1:'' @ snd (calls ! k)) 20]"
  by (cases "calls ! k") (simp add: take_Suc_conv_app_nth probed_append)

lemma probe_loop_e:
  "e s = shutting_down s \<Longrightarrow>
   e (snd (probe_loop env cs k s)) = shutting_down (snd (probe_loop env cs k s))"
proof (induction cs arbitrary: k s)
  case Nil
  then show ?case by simp
next
  case (Cons c cs)
  obtain call port where c: "c = (call, port)" by (cases c)
  show ?case using Cons.prems
    by (auto simp add: c Let_def intro!: Cons.IH split: outcome.splits)
qed

lemma branches:
  "P s2 \<Longrightarrow> P (snd A) \<Longrightarrow> P (snd B) \<Longrightarrow> P (snd C) \<Longrightarrow>
   P (snd (if a then (if b then (x, s2) else (case oc of Ready \<Rightarrow> A | Timeout \<Rightarrow> B)) else C))"
  by (cases oc) auto

lemma extends_refl [simp]: "extends s s"
  by (simp add: extends_def)

lemma extends_trans: "extends s r \<Longrightarrow> extends r u \<Longrightarrow> extends s u"
  by (auto simp add: extends_def)

lemma extends_handler [simp]: "extends s (handler env s)"
  by (simp add: extends_def)

lemma extends_sigint [simp]: "extends s (sigint env n s)"
  by (simp add: extends_def filter_concat)

lemma extends_emit: "filter is_launch evs = [] \<Longrightarrow> extends s (emit evs s)"
  by (simp add: extends_def)

lemma extends_probe_loop: "extends s (snd (probe_loop env cs k s))"
proof (induction cs arbitrary: k s)
  case Nil
  then show ?case by simp
next
  case (Cons c cs)
  obtain call port where c: "c = (call, port)" by (cases c)
  let ?s0 = "sigint env (sigint_before env k) s"
  let ?s1 = "emit [Probe k (''127.0.0.1:'' @ port) 20] (?s0\<lparr>future := Some (k, False)\<rparr>)"
  let ?s2 = "sigint env (sigint_during env k) ?s1"
  let ?s3 = "handler env (emit [PrintFormat ''Failed to launch: {}'' call] ?s2)"
  have e0: "extends s ?s0" by simp
  have "extends ?s0 ?s1" by (simp add: extends_def)
  with e0 have e1: "extends s ?s1" by (rule extends_trans)
  have "extends ?s1 ?s2" by simp
  with e1 have e2: "extends s ?s2" by (rule extends_trans)
  have "extends ?s2 ?s3" by (simp add: extends_def)
  with e2 have e3: "extends s ?s3" by (rule extends_trans)
  from e0 Cons.IH [of ?s0 "Suc k"] have r0: "extends s (snd (probe_loop env cs (Suc k) ?s0))"
    by (rule extends_trans)
  from e2 Cons.IH [of ?s2 "Suc k"] have r2: "extends s (snd (probe_loop env cs (Suc k) ?s2))"
    by (rule extends_trans)
  from e3 Cons.IH [of ?s3 "Suc k"] have r3: "extends s (snd (probe_loop env cs (Suc k) ?s3))"
    by (rule extends_trans)
  show ?case unfolding c probe_loop.simps Let_def
    by (rule branches [where P = "extends s"]) (rule e2 r2 r3 r0)+
qed

lemma no_trigger_iff:
  "no_trigger env k j =
     ((\<forall>i. k \<le> i \<and> i \<le> j \<longrightarrow> sigint_before env i = 0)
      \<and> (\<forall>i. k \<le> i \<and> i < j \<longrightarrow> sigint_during env i = 0 \<and> probe_outcome env i = Ready))"
  by (auto simp add: no_trigger_def list_all_iff)

lemma no_trigger_self: "no_trigger env k k = (sigint_before env k = 0)"
  by (simp add: no_trigger_def)

lemma no_trigger_step:
  assumes "k < j"
  shows "no_trigger env k j =
     (sigint_before env k = 0 \<and> sigint_during env k = 0 \<and> probe_outcome env k = Ready
      \<and> no_trigger env (Suc k) j)"
proof -
  have "[k..<Suc j] = k # [Suc k..<Suc j]" "[k..<j] = k # [Suc k..<j]"
    using assms by (simp_all add: upt_conv_Cons del: upt_Suc)
  then show ?thesis by (auto simp add: no_trigger_def simp del: upt_Suc)
qed

lemma no_trigger_blocked:
  assumes "sigint_before env k \<noteq> 0 \<or> sigint_during env k \<noteq> 0 \<or> probe_outcome env k \<noteq> Ready"
  shows "filter (no_trigger env k) [Suc k..<n] = []"
  using assms by (auto simp add: filter_empty_conv no_trigger_step)

lemma probes_probe_loop:
  "filter is_Probe (trace (snd (probe_loop env cs k s))) =
     filter is_Probe (trace s) @
     (if shutting_down s then []
      else map (\<lambda>j. Probe j (''127.0.0.1:'' @ snd (cs ! (j - k))) 20)
             (filter (no_trigger env k) [k..<k + length cs]))"
proof (induction cs arbitrary: k s)
  case Nil
  then show ?case by simp
next
  case (Cons c cs)
  obtain call port where c: "c = (call, port)" by (cases c)
  define rest where "rest = [Suc k..<Suc k + length cs]"
  have up: "[k..<k + length (c # cs)] = k # rest"
    by (simp add: rest_def upt_conv_Cons del: upt_Suc)
  have blocked: "filter (no_trigger env k) rest = []"
    if "sigint_before env k \<noteq> 0 \<or> sigint_during env k \<noteq> 0 \<or> probe_outcome env k \<noteq> Ready"
    using that unfolding rest_def by (rule no_trigger_blocked)
  show ?case
  proof (cases "shutting_down s")
    case True
    then show ?thesis by (simp add: probe_loop_shut)
  next
    case ns: False
    show ?thesis
    proof (cases "sigint_before env k = 0")
      case False
      then have sd: "shutting_down (sigint env (sigint_before env k) s)" by simp
      from False have "filter (no_trigger env k) rest = []" by (simp add: blocked)
      with False ns sd show ?thesis
        unfolding up by (simp add: c Let_def probe_loop_shut no_trigger_self)
    next
      case b: True
      let ?s1 = "emit [Probe k (''127.0.0.1:'' @ port) 20] (s\<lparr>future := Some (k, False)\<rparr>)"
      show ?thesis
      proof (cases "sigint_during env k = 0")
        case False
        then have "filter (no_trigger env k) rest = []" by (simp add: blocked)
        with False ns b show ?thesis
          unfolding up by (simp add: c Let_def no_trigger_self)
      next
        case d: True
        show ?thesis
        proof (cases "probe_outcome env k")
          case Ready
          have ns1: "\<not> shutting_down ?s1" using ns by simp
          have same: "filter (no_trigger env k) rest = filter (no_trigger env (Suc k)) rest"
          proof (rule filter_cong [OF refl])
            fix j assume "j \<in> set rest"
            then have "k < j" by (simp add: rest_def del: upt_Suc)
            then show "no_trigger env k j = no_trigger env (Suc k) j"
              using b d Ready by (simp add: no_trigger_step)
          qed
          have idx: "map (\<lambda>j. Probe j (''127.0.0.1:'' @ snd ((c # cs) ! (j - k))) 20)
                (filter (no_trigger env (Suc k)) rest) =
              map (\<lambda>j. Probe j (''127.0.0.1:'' @ snd (cs ! (j - Suc k))) 20)
                (filter (no_trigger env (Suc k)) rest)"
          proof (rule map_cong [OF refl])
            fix j assume "j \<in> set (filter (no_trigger env (Suc k)) rest)"
            then have "k < j" by (simp add: rest_def del: upt_Suc)
            then have "j - k = Suc (j - Suc k)" by arith
            then have "(c # cs) ! (j - k) = cs ! (j - Suc k)"
              by simp
            then show "Probe j (''127.0.0.1:'' @ snd ((c # cs) ! (j - k))) 20 =
                Probe j (''127.0.0.1:'' @ snd (cs ! (j - Suc k))) 20"
              by simp
          qed
          have rhs: "map (\<lambda>j. Probe j (''127.0.0.1:'' @ snd ((c # cs) ! (j - k))) 20)
                (filter (no_trigger env k) (k # rest)) =
              Probe k (''127.0.0.1:'' @ port) 20 #
              map (\<lambda>j. Probe j (''127.0.0.1:'' @ snd (cs ! (j - Suc k))) 20)
                (filter (no_trigger env (Suc k)) rest)"
          proof -
            have "map (\<lambda>j. Probe j (''127.0.0.1:'' @ snd ((c # cs) ! (j - k))) 20)
                (filter (no_trigger env k) (k # rest)) =
              Probe k (''127.0.0.1:'' @ snd ((c # cs) ! (k - k))) 20 #
              map (\<lambda>j. Probe j (''127.0.0.1:'' @ snd ((c # cs) ! (j - k))) 20)
                (filter (no_trigger env (Suc k)) rest)"
              using b by (simp only: filter.simps no_trigger_self refl if_True list.map same)
            also have "\<dots> = Probe k (''127.0.0.1:'' @ port) 20 #
              map (\<lambda>j. Probe j (''127.0.0.1:'' @ snd (cs ! (j - Suc k))) 20)
                (filter (no_trigger env (Suc k)) rest)"
              by (subst idx) (simp add: c)
            finally show ?thesis .
          qed
          from Cons.IH [of "Suc k" ?s1] ns1
          have "filter is_Probe (trace (snd (probe_loop env cs (Suc k) ?s1))) =
              filter is_Probe (trace ?s1) @
              map (\<lambda>j. Probe j (''127.0.0.1:'' @ snd (cs ! (j - Suc k))) 20)
                (filter (no_trigger env (Suc k)) rest)"
            by (simp add: rest_def)
          with ns b d Ready
          have lhs: "filter is_Probe (trace (snd (probe_loop env (c # cs) k s))) =
              filter is_Probe (trace s) @
              Probe k (''127.0.0.1:'' @ port) 20 #
              map (\<lambda>j. Probe j (''127.0.0.1:'' @ snd (cs ! (j - Suc k))) 20)
                (filter (no_trigger env (Suc k)) rest)"
            by (simp add: c Let_def)
          show ?thesis
            unfolding up rhs lhs using ns by simp
        next
          case Timeout
          then have "filter (no_trigger env k) rest = []" by (simp add: blocked)
          with ns b d Timeout show ?thesis
            unfolding up by (simp add: c Let_def probe_loop_shut no_trigger_self)
        qed
      qed
    qed
  qed
qed

subsection \<open>C9: the flag is never reset\<close>

text \<open>
  C9: once \<^verbatim>\<open>shutting_down[0]\<close> is true, no operation of the supervisor resets it:
  not the handler, not any number of deliveries of SIGINT, not what is left of the
  start loop or of the readiness loop (from any iteration, over any services), not the
  final wait.
\<close>

theorem shutting_down_is_monotonic:
  assumes "shutting_down s"
  shows "shutting_down (handler env s) \<and> shutting_down (sigint env n s)
    \<and> shutting_down (snd (spawn env cs s))
    \<and> shutting_down (snd (probe_loop env cs k s))
    \<and> shutting_down (snd (wait_and_finish env s))"
proof -
  have "shutting_down (snd (spawn env cs s))"
    using assms by (induction cs arbitrary: s) (auto simp add: Let_def emit_def)
  moreover have "shutting_down (snd (probe_loop env cs k s))"
    using assms by (simp add: probe_loop_shut)
  moreover have "shutting_down (snd (wait_and_finish env s))"
    using assms by (simp add: wait_and_finish_def Let_def emit_def)
  ultimately show ?thesis using assms by simp
qed

theorem shutting_down_is_monotonic_witness:
  "shutting_down (handler calm init)
   \<and> shutting_down (handler calm (handler calm init))
   \<and> shutting_down (sigint calm 2 (handler calm init))
   \<and> shutting_down (snd (spawn calm plan (handler calm init)))
   \<and> shutting_down (snd (probe_loop calm plan 0 (handler calm init)))
   \<and> shutting_down (snd (wait_and_finish calm (handler calm init)))"
proof -
  have h: "shutting_down (handler calm init)" by simp
  show ?thesis
    using h shutting_down_is_monotonic [OF h, of calm 2 plan 0] by simp
qed

subsection \<open>Runs in which every command starts\<close>

lemma reached_sel [simp]:
  "processes (reached calls k) = [0..<length calls]"
  "process_listeners (reached calls k) = [0..<length calls]"
  "\<not> e (reached calls k)"
  "\<not> shutting_down (reached calls k)"
  "trace (reached calls k) = spawned 0 calls @ SignalInstall # probed 0 (take k calls)"
  by (simp_all add: reached_def)

lemma deploy_reach:
  assumes spawn: "\<forall>i<length calls. spawn_ok env i"
    and k: "k \<le> length calls"
    and quiet: "\<forall>j<k. sigint_before env j = 0 \<and> sigint_during env j = 0
                  \<and> probe_outcome env j = Ready"
  shows "deploy env calls =
     (case probe_loop env (drop k calls) k (reached calls k) of
        (Some x, s') \<Rightarrow> (Raised x, s')
      | (None, s') \<Rightarrow> wait_and_finish env (emit [Print ''Done starting all processors''] s'))"
proof -
  let ?s = "emit [SignalInstall] (init\<lparr>processes := [0..<length calls],
      process_listeners := [0..<length calls], trace := spawned 0 calls\<rparr>)"
  have ns: "\<not> shutting_down ?s" by (simp add: init_def)
  have q: "\<forall>j<length (take k calls). sigint_before env (0 + j) = 0
      \<and> sigint_during env (0 + j) = 0 \<and> probe_outcome env (0 + j) = Ready"
    using quiet k by simp
  have len: "length (take k calls) = k" using k by simp
  have "probe_loop env (take k calls) 0 ?s = (None, reached calls k)"
    using probe_loop_ready [OF ns q] len k
    by (auto simp add: reached_def init_def emit_def)
  then have "probe_loop env (take k calls @ drop k calls) 0 ?s =
      probe_loop env (drop k calls) k (reached calls k)"
    using len by (simp only: probe_loop_append) simp
  then have "probe_loop env calls 0 ?s = probe_loop env (drop k calls) k (reached calls k)"
    by simp
  then show ?thesis
    using spawn_init [OF spawn] by (simp add: deploy_def)
qed

lemma deploy_all_ready:
  assumes spawn: "\<forall>i<length calls. spawn_ok env i"
    and quiet: "\<forall>j<length calls. sigint_before env j = 0 \<and> sigint_during env j = 0
                  \<and> probe_outcome env j = Ready"
  shows "deploy env calls =
     wait_and_finish env (emit [Print ''Done starting all processors''] (reached calls (length calls)))"
  using deploy_reach [OF spawn le_refl quiet] by simp

lemma drop_step:
  "k < length calls \<Longrightarrow> calls ! k = (call, port) \<Longrightarrow>
   drop k calls = (call, port) # drop (Suc k) calls"
  using Cons_nth_drop_Suc [of k calls] by simp

lemma deploy_timeout:
  assumes spawn: "\<forall>i<length calls. spawn_ok env i"
    and k: "k < length calls"
    and quiet: "no_trigger env 0 k"
    and here: "sigint_during env k = 0" "probe_outcome env k = Timeout"
  shows "deploy env calls =
     (Returned,
      emit [Print ''Done starting all processors'', EventWait,
            Print ''Done shutting down all processors'']
        (sigint env (sum_list (map (sigint_before env) [Suc k..<length calls]))
           (timed_out env calls k)))"
proof -
  from quiet have q: "\<forall>j<k. sigint_before env j = 0 \<and> sigint_during env j = 0
                  \<and> probe_outcome env j = Ready" and b: "sigint_before env k = 0"
    by (simp_all add: no_trigger_iff)
  have kl: "k \<le> length calls" using k by simp
  have up: "Suc k + length (drop (Suc k) calls) = length calls" using k by simp
  obtain call port where c: "calls ! k = (call, port)" by (cases "calls ! k")
  have "probe_loop env (drop k calls) k (reached calls k) =
     probe_loop env (drop (Suc k) calls) (Suc k) (timed_out env calls k)"
    using b here by (simp add: drop_step [OF k c] c Let_def timed_out_def emit_def)
  also have "\<dots> = (None, sigint env (sum_list (map (sigint_before env) [Suc k..<length calls]))
           (timed_out env calls k))"
  proof -
    have sd: "shutting_down (timed_out env calls k)" by (simp add: timed_out_def)
    show ?thesis using probe_loop_shut [OF sd, of env "drop (Suc k) calls" "Suc k"]
      unfolding up .
  qed
  finally have loop: "probe_loop env (drop k calls) k (reached calls k) =
     (None, sigint env (sum_list (map (sigint_before env) [Suc k..<length calls]))
           (timed_out env calls k))" .
  have "e (sigint env (sum_list (map (sigint_before env) [Suc k..<length calls]))
           (timed_out env calls k))"
    by (simp add: timed_out_def)
  then show ?thesis
    using deploy_reach [OF spawn kl q] loop
    by (simp add: wait_and_finish_def Let_def emit_def)
qed

lemma deploy_cancelled:
  assumes spawn: "\<forall>i<length calls. spawn_ok env i"
    and k: "k < length calls"
    and quiet: "no_trigger env 0 k"
    and here: "0 < sigint_during env k"
  shows "deploy env calls =
     (Raised FutureCancelledError,
      sigint env (sigint_during env k)
        (emit [Probe k (''127.0.0.1:'' @ snd (calls ! k)) 20]
          ((reached calls k)\<lparr>future := Some (k, False)\<rparr>)))"
proof -
  from quiet have q: "\<forall>j<k. sigint_before env j = 0 \<and> sigint_during env j = 0
                  \<and> probe_outcome env j = Ready" and b: "sigint_before env k = 0"
    by (simp_all add: no_trigger_iff)
  have kl: "k \<le> length calls" using k by simp
  obtain call port where c: "calls ! k = (call, port)" by (cases "calls ! k")
  have "probe_loop env (drop k calls) k (reached calls k) =
     (Some FutureCancelledError, sigint env (sigint_during env k)
        (emit [Probe k (''127.0.0.1:'' @ snd (calls ! k)) 20]
          ((reached calls k)\<lparr>future := Some (k, False)\<rparr>)))"
    using b here by (simp add: drop_step [OF k c] c Let_def)
  then show ?thesis
    using deploy_reach [OF spawn kl q] by simp
qed

lemma deploy_after_loop:
  assumes "\<forall>i<length calls. spawn_ok env i"
  shows "extends (snd (probe_loop env calls 0 (emit [SignalInstall] (snd (spawn env calls init)))))
           (snd (deploy env calls))
    \<and> filter is_Probe (trace (snd (deploy env calls))) =
       filter is_Probe (trace (snd (probe_loop env calls 0
          (emit [SignalInstall] (snd (spawn env calls init))))))"
proof (cases "probe_loop env calls 0 (emit [SignalInstall] (snd (spawn env calls init)))")
  case (Pair r s')
  have sp: "spawn env calls init = (None, snd (spawn env calls init))"
    using spawn_init [OF assms] by simp
  show ?thesis
  proof (cases r)
    case None
    have "deploy env calls =
        wait_and_finish env (emit [Print ''Done starting all processors''] s')"
      using Pair None by (subst deploy_def, subst sp) simp
    then show ?thesis using Pair
      by (simp add: wait_and_finish_def Let_def extends_def)
  next
    case (Some x)
    have "deploy env calls = (Raised x, s')"
      using Pair Some by (subst deploy_def, subst sp) simp
    then show ?thesis using Pair by simp
  qed
qed

subsection \<open>C3: a probe that times out\<close>

text \<open>
  C3: when the probe of service \<open>k\<close> is made (all commands started, nothing triggered
  shutdown before) and ends with a timeout, the supervisor prints the diagnostic with
  the command of service \<open>k\<close>, and the next thing it does is the handler: the line
  "Shutting down all processors" and a termination request to every spawned process,
  those of the services that were ready included. No probe is made after that.
\<close>

theorem timeout_prints_then_cascades:
  assumes "\<forall>i<length calls. spawn_ok env i"
    and "k < length calls"
    and "no_trigger env 0 k"
    and "sigint_during env k = 0"
    and "probe_outcome env k = Timeout"
  shows "\<exists>pre post.
     trace (snd (deploy env calls)) =
       pre @ [Probe k (''127.0.0.1:'' @ snd (calls ! k)) 20,
              PrintFormat ''Failed to launch: {}'' (fst (calls ! k)),
              Print ''Shutting down all processors'']
           @ map SendSignal [0..<length calls] @ post
     \<and> filter is_Probe post = []"
proof -
  let ?m = "sum_list (map (sigint_before env) [Suc k..<length calls])"
  let ?c = "cascade env (timed_out env calls k)"
  let ?post = "FutureCancel k # map (\<lambda>l. Join l 5 (relay_finishes env l)) [0..<length calls]
       @ [EventSet] @ concat (replicate ?m ?c)
       @ [Print ''Done starting all processors'', EventWait,
          Print ''Done shutting down all processors'']"
  have "trace (snd (deploy env calls)) =
      (spawned 0 calls @ SignalInstall # probed 0 (take k calls))
       @ [Probe k (''127.0.0.1:'' @ snd (calls ! k)) 20,
              PrintFormat ''Failed to launch: {}'' (fst (calls ! k)),
              Print ''Shutting down all processors'']
           @ map SendSignal [0..<length calls] @ ?post"
    by (simp add: deploy_timeout [OF assms] timed_out_def cascade_def)
  moreover have "filter is_Probe ?post = []"
    by (simp add: filter_concat)
  ultimately show ?thesis by blast
qed

theorem timeout_prints_then_cascades_witness:
  "\<exists>pre post.
     trace (snd (deploy (calm\<lparr>probe_outcome := (probe_outcome calm)(1 := Timeout)\<rparr>) plan)) =
       pre @ [Probe 1 ''127.0.0.1:10103'' 20,
              PrintFormat ''Failed to launch: {}'' [''java'', ''tagger''],
              Print ''Shutting down all processors'']
           @ [SendSignal 0, SendSignal 1, SendSignal 2] @ post
     \<and> filter is_Probe post = []"
proof -
  let ?t = "calm\<lparr>probe_outcome := (probe_outcome calm)(1 := Timeout)\<rparr>"
  have s: "\<forall>i<length plan. spawn_ok ?t i" by (simp add: calm_def)
  have k: "1 < length plan" by (simp add: plan_def)
  have n: "no_trigger ?t 0 1" by (simp add: no_trigger_def calm_def)
  have d: "sigint_during ?t 1 = 0" by (simp add: calm_def)
  have p: "probe_outcome ?t 1 = Timeout" by simp
  have c: "plan ! 1 = ([''java'', ''tagger''], ''10103'')" "[0..<length plan] = [0, 1, 2]"
    by (simp_all add: plan_def upt_rec)
  from timeout_prints_then_cascades [OF s k n d p] obtain pre post where
    tr: "trace (snd (deploy ?t plan)) =
       pre @ [Probe 1 (''127.0.0.1:'' @ snd (plan ! 1)) 20,
              PrintFormat ''Failed to launch: {}'' (fst (plan ! 1)),
              Print ''Shutting down all processors'']
           @ map SendSignal [0..<length plan] @ post"
    and np: "filter is_Probe post = []"
    by blast
  from tr [unfolded c] have "trace (snd (deploy ?t plan)) =
       pre @ [Probe 1 ''127.0.0.1:10103'' 20,
              PrintFormat ''Failed to launch: {}'' [''java'', ''tagger''],
              Print ''Shutting down all processors'']
           @ [SendSignal 0, SendSignal 1, SendSignal 2] @ post"
    by simp
  with np show ?thesis by blast
qed

subsection \<open>C4: SIGINT while a probe is in flight\<close>



subsection \<open>C1: the exit status\<close>




subsection \<open>C6: all processes first, then one probe per service, in order\<close>



subsection \<open>C10: the end of deploy\<close>

text \<open>
  C10 says that on every run in which all processes spawn, the supervisor prints "Done
  starting all processors" after the readiness loop, also when a timeout has triggered
  shutdown, and then blocks until the event is set before it prints "Done shutting
  down all processors". In the code this is what happens whenever the loop runs to its
  end, in state \<open>s'\<close>: the line is printed and the wait is entered; when the event is
  already set (exactly when the flag is set, as after a timeout) the last line follows
  at once; when it is not, the last line follows only after a SIGINT has run the
  handler, which sets the event, and with no SIGINT \<^verbatim>\<open>deploy\<close> blocks for ever. But
  the loop does not always run to its end: when it is left by an exception (a probe
  cancelled by SIGINT), \<^verbatim>\<open>deploy\<close> ends there by that exception, in the state of the
  loop, and prints neither line.
\<close>

theorem deploy_after_probe_loop:
  assumes "\<forall>i<length calls. spawn_ok env i"
    and "probe_loop env calls 0 (emit [SignalInstall] (snd (spawn env calls init))) = (r, s')"
  shows "(r = None \<longrightarrow>
            trace (snd (deploy env calls)) =
              trace s' @ [Print ''Done starting all processors'', EventWait]
              @ (if e s' then [Print ''Done shutting down all processors'']
                 else if sigint_at_wait env
                 then cascade env s' @ [Print ''Done shutting down all processors'']
                 else [])
            \<and> fst (deploy env calls) = (if e s' \<or> sigint_at_wait env then Returned else Blocked)
            \<and> e (snd (deploy env calls)) = (e s' \<or> sigint_at_wait env))
    \<and> (\<forall>x. r = Some x \<longrightarrow> deploy env calls = (Raised x, s'))
    \<and> e s' = shutting_down s'"
proof -
  have sp: "spawn env calls init = (None, snd (spawn env calls init))"
    using spawn_init [OF assms(1)] by simp
  have d: "deploy env calls =
      (case r of
         None \<Rightarrow> wait_and_finish env (emit [Print ''Done starting all processors''] s')
       | Some x \<Rightarrow> (Raised x, s'))"
    using assms(2) by (subst deploy_def, subst sp) (simp split: option.splits)
  have "e (emit [SignalInstall] (snd (spawn env calls init))) =
        shutting_down (emit [SignalInstall] (snd (spawn env calls init)))"
    using spawn_init [OF assms(1)] by (simp add: init_def)
  from probe_loop_e [OF this, of env calls 0] assms(2)
  have "e s' = shutting_down s'" by simp
  then show ?thesis
    by (simp add: d wait_and_finish_def Let_def)
qed

theorem deploy_after_probe_loop_witness:
  "trace (snd (deploy (calm\<lparr>probe_outcome := (probe_outcome calm)(1 := Timeout)\<rparr>) plan)) =
     [Popen [''mtap'', ''events''], ThreadStart 0, Popen [''java'', ''tagger''],
      ThreadStart 1, Popen [''python'', ''negex''], ThreadStart 2, SignalInstall,
      Probe 0 ''127.0.0.1:10100'' 20, Probe 1 ''127.0.0.1:10103'' 20,
      PrintFormat ''Failed to launch: {}'' [''java'', ''tagger''],
      Print ''Shutting down all processors'',
      SendSignal 0, SendSignal 1, SendSignal 2, FutureCancel 1,
      Join 0 5 True, Join 1 5 True, Join 2 5 True, EventSet,
      Print ''Done starting all processors'', EventWait,
      Print ''Done shutting down all processors'']
   \<and> fst (deploy (calm\<lparr>probe_outcome := (probe_outcome calm)(1 := Timeout)\<rparr>) plan) = Returned
   \<and> deploy (calm\<lparr>sigint_during := (sigint_during calm)(1 := 1)\<rparr>) plan =
       (Raised FutureCancelledError,
        \<lparr>processes = [0, 1, 2], process_listeners = [0, 1, 2], e = True,
         shutting_down = True, future = Some (1, True),
         trace = [Popen [''mtap'', ''events''], ThreadStart 0, Popen [''java'', ''tagger''],
           ThreadStart 1, Popen [''python'', ''negex''], ThreadStart 2, SignalInstall,
           Probe 0 ''127.0.0.1:10100'' 20, Probe 1 ''127.0.0.1:10103'' 20,
           Print ''Shutting down all processors'',
           SendSignal 0, SendSignal 1, SendSignal 2, FutureCancel 1,
           Join 0 5 True, Join 1 5 True, Join 2 5 True, EventSet]\<rparr>)"
proof -
  let ?t = "calm\<lparr>probe_outcome := (probe_outcome calm)(1 := Timeout)\<rparr>"
  let ?c = "calm\<lparr>sigint_during := (sigint_during calm)(1 := 1)\<rparr>"
  let ?s = "\<lparr>processes = [0, 1, 2], process_listeners = [0, 1, 2], e = True,
       shutting_down = True, future = Some (1, True),
       trace = [Popen [''mtap'', ''events''], ThreadStart 0, Popen [''java'', ''tagger''],
      ThreadStart 1, Popen [''python'', ''negex''], ThreadStart 2, SignalInstall,
      Probe 0 ''127.0.0.1:10100'' 20, Probe 1 ''127.0.0.1:10103'' 20,
      PrintFormat ''Failed to launch: {}'' [''java'', ''tagger''],
      Print ''Shutting down all processors'',
      SendSignal 0, SendSignal 1, SendSignal 2, FutureCancel 1,
      Join 0 5 True, Join 1 5 True, Join 2 5 True, EventSet]\<rparr>"
  let ?u = "\<lparr>processes = [0, 1, 2], process_listeners = [0, 1, 2], e = True,
         shutting_down = True, future = Some (1, True),
         trace = [Popen [''mtap'', ''events''], ThreadStart 0, Popen [''java'', ''tagger''],
           ThreadStart 1, Popen [''python'', ''negex''], ThreadStart 2, SignalInstall,
           Probe 0 ''127.0.0.1:10100'' 20, Probe 1 ''127.0.0.1:10103'' 20,
           Print ''Shutting down all processors'',
           SendSignal 0, SendSignal 1, SendSignal 2, FutureCancel 1,
           Join 0 5 True, Join 1 5 True, Join 2 5 True, EventSet]\<rparr>"
  have s: "\<forall>i<length plan. spawn_ok ?t i" by (simp add: calm_def)
  have l: "probe_loop ?t plan 0 (emit [SignalInstall] (snd (spawn ?t plan init))) = (None, ?s)"
    by code_simp
  have s': "\<forall>i<length plan. spawn_ok ?c i" by (simp add: calm_def)
  have l': "probe_loop ?c plan 0 (emit [SignalInstall] (snd (spawn ?c plan init))) =
      (Some FutureCancelledError, ?u)"
    by code_simp
  show ?thesis
    using deploy_after_probe_loop [OF s l] deploy_after_probe_loop [OF s' l'] by simp
qed

subsection \<open>C8: a relay that does not end within the grace period\<close>

lemma alike_refl [simp]: "alike s s"
  by (simp add: alike_def)

lemma alike_emit: "alike s r \<Longrightarrow> alike (emit evs s) (emit evs r)"
  by (simp add: alike_def)

lemma alike_future: "alike s r \<Longrightarrow> alike (s\<lparr>future := x\<rparr>) (r\<lparr>future := x\<rparr>)"
  by (simp add: alike_def)

lemma hide_cascade:
  "processes s = processes r \<Longrightarrow> process_listeners s = process_listeners r \<Longrightarrow>
   future s = future r \<Longrightarrow>
   map hide_join (cascade env s) = map hide_join (cascade (env\<lparr>relay_finishes := f\<rparr>) r)"
  by (simp add: cascade_def comp_def split: option.splits)

lemma alike_handler:
  "alike s r \<Longrightarrow> alike (handler env s) (handler (env\<lparr>relay_finishes := f\<rparr>) r)"
  using hide_cascade [of s r env f]
  by (simp add: alike_def future_handler)

lemma alike_sigint:
  "alike s r \<Longrightarrow> alike (sigint env n s) (sigint (env\<lparr>relay_finishes := f\<rparr>) n r)"
  by (induction n) (simp_all add: sigint_Suc alike_handler)

lemma branches2:
  "a = a' \<Longrightarrow> b = b' \<Longrightarrow> Q (x, s2) (x, s2') \<Longrightarrow> Q A A' \<Longrightarrow> Q B B' \<Longrightarrow> Q C C' \<Longrightarrow>
   Q (if a then (if b then (x, s2) else (case oc of Ready \<Rightarrow> A | Timeout \<Rightarrow> B)) else C)
     (if a' then (if b' then (x, s2') else (case oc of Ready \<Rightarrow> A' | Timeout \<Rightarrow> B')) else C')"
  by (cases oc) auto

lemma alike_probe_loop:
  "alike s r \<Longrightarrow>
   fst (probe_loop env cs k s) = fst (probe_loop (env\<lparr>relay_finishes := f\<rparr>) cs k r)
   \<and> alike (snd (probe_loop env cs k s)) (snd (probe_loop (env\<lparr>relay_finishes := f\<rparr>) cs k r))"
proof (induction cs arbitrary: k s r)
  case Nil
  then show ?case by simp
next
  case (Cons c cs)
  obtain call port where c: "c = (call, port)" by (cases c)
  let ?env' = "env\<lparr>relay_finishes := f\<rparr>"
  let ?Q = "\<lambda>x y. fst x = fst y \<and> alike (snd x) (snd y)"
  let ?s0 = "sigint env (sigint_before env k) s"
  let ?r0 = "sigint ?env' (sigint_before env k) r"
  let ?s1 = "emit [Probe k (''127.0.0.1:'' @ port) 20] (?s0\<lparr>future := Some (k, False)\<rparr>)"
  let ?r1 = "emit [Probe k (''127.0.0.1:'' @ port) 20] (?r0\<lparr>future := Some (k, False)\<rparr>)"
  let ?s2 = "sigint env (sigint_during env k) ?s1"
  let ?r2 = "sigint ?env' (sigint_during env k) ?r1"
  let ?s3 = "handler env (emit [PrintFormat ''Failed to launch: {}'' call] ?s2)"
  let ?r3 = "handler ?env' (emit [PrintFormat ''Failed to launch: {}'' call] ?r2)"
  have a0: "alike ?s0 ?r0" using Cons.prems by (rule alike_sigint)
  then have a1: "alike ?s1 ?r1" by (intro alike_emit alike_future)
  then have a2: "alike ?s2 ?r2" by (rule alike_sigint)
  then have a3: "alike ?s3 ?r3" by (intro alike_handler alike_emit)
  have flag: "(\<not> shutting_down ?s0) = (\<not> shutting_down ?r0)"
    using a0 by (simp only: alike_def)
  have canc: "cancelled (future ?s2) = cancelled (future ?r2)"
    using a2 by (simp only: alike_def)
  have q2: "?Q (Some FutureCancelledError, ?s2) (Some FutureCancelledError, ?r2)"
    using a2 by simp
  have env': "sigint_before ?env' k = sigint_before env k"
    "sigint_during ?env' k = sigint_during env k" "probe_outcome ?env' k = probe_outcome env k"
    by simp_all
  show ?case
    unfolding c probe_loop.simps Let_def env'
    by (rule branches2 [where Q = ?Q, OF flag canc q2 Cons.IH [OF a2] Cons.IH [OF a3]
          Cons.IH [OF a0]])
qed

lemma outputs_hide: "filter is_output (map hide_join evs) = filter is_output evs"
proof (induction evs)
  case Nil
  then show ?case by simp
next
  case (Cons ev evs)
  then show ?case by (cases ev) simp_all
qed

lemma alike_outputs:
  "alike s r \<Longrightarrow> filter is_output (trace s) = filter is_output (trace r)"
proof -
  assume "alike s r"
  then have "map hide_join (trace s) = map hide_join (trace r)" by (simp add: alike_def)
  then have "filter is_output (map hide_join (trace s)) =
      filter is_output (map hide_join (trace r))" by simp
  then show ?thesis by (simp only: outputs_hide)
qed

lemma alike_wait:
  "alike s r \<Longrightarrow>
   fst (wait_and_finish env s) = fst (wait_and_finish (env\<lparr>relay_finishes := f\<rparr>) r)
   \<and> alike (snd (wait_and_finish env s)) (snd (wait_and_finish (env\<lparr>relay_finishes := f\<rparr>) r))"
proof -
  assume a: "alike s r"
  then have a1: "alike (emit [EventWait] s) (emit [EventWait] r)" by (rule alike_emit)
  then have ev: "e (emit [EventWait] s) = e (emit [EventWait] r)" by (simp only: alike_def)
  from a1 have a2: "alike (handler env (emit [EventWait] s))
      (handler (env\<lparr>relay_finishes := f\<rparr>) (emit [EventWait] r))"
    by (rule alike_handler)
  show ?thesis
    using ev alike_emit [OF a1] alike_emit [OF a2] a1
    by (simp add: wait_and_finish_def Let_def)
qed

lemma alike_deploy:
  "fst (deploy env calls) = fst (deploy (env\<lparr>relay_finishes := f\<rparr>) calls)
   \<and> alike (snd (deploy env calls)) (snd (deploy (env\<lparr>relay_finishes := f\<rparr>) calls))"
proof (cases "spawn env calls init")
  case (Pair x s)
  show ?thesis
  proof (cases x)
    case (Some y)
    then show ?thesis using Pair by (simp add: deploy_def spawn_env)
  next
    case None
    let ?env' = "env\<lparr>relay_finishes := f\<rparr>"
    let ?l = "probe_loop env calls 0 (emit [SignalInstall] s)"
    let ?l' = "probe_loop ?env' calls 0 (emit [SignalInstall] s)"
    from alike_probe_loop [OF alike_refl, of env calls 0 "emit [SignalInstall] s" f]
    have l: "fst ?l = fst ?l'" "alike (snd ?l) (snd ?l')" by simp_all
    obtain y u where lu: "?l = (y, u)" by (cases ?l)
    obtain y' u' where lu': "?l' = (y', u')" by (cases ?l')
    from l lu lu' have yy: "y' = y" and au: "alike u u'" by simp_all
    show ?thesis
    proof (cases y)
      case (Some z)
      then show ?thesis using Pair None lu lu' yy au
        by (simp add: deploy_def spawn_env)
    next
      case n: None
      from alike_wait [OF alike_emit [OF au, of "[Print ''Done starting all processors'']"],
          of env f]
      show ?thesis using Pair None lu lu' yy n
        by (simp add: deploy_def spawn_env)
    qed
  qed
qed



end
